theory Spec2Isabelle
  imports Complex_Main "HOL-Library.Sublist"
begin

section \<open>Strings of the plagiarism service\<close>

text \<open>
  The matcher of \<^verbatim>\<open>plagiarismService.ts\<close> works on JavaScript strings. A string is
  modelled as a \<^typ>\<open>string\<close>, a list of code units; the embedding covers the code units
  0..255 (ASCII and the Latin-1 supplement), on which \<^verbatim>\<open>toLowerCase\<close>, the regular
  expression classes \<^verbatim>\<open>\w\<close> and \<^verbatim>\<open>\s\<close> and \<^verbatim>\<open>trim\<close> are given exactly.
  Numbers are JavaScript doubles in the source and \<^typ>\<open>real\<close> here.
\<close>

definition isUpper :: "char \<Rightarrow> bool" where
  \<comment> \<open>the code units that \<^verbatim>\<open>toLowerCase\<close> changes: A-Z, and U+00C0..U+00DE without U+00D7\<close>
  "isUpper c = (let n = (of_char c :: nat) in
     (65 \<le> n \<and> n \<le> 90) \<or> (192 \<le> n \<and> n \<le> 222 \<and> n \<noteq> 215))"

definition lowerChar :: "char \<Rightarrow> char" where
  "lowerChar c = (if isUpper c then char_of ((of_char c :: nat) + 32) else c)"

definition toLowerCase :: "string \<Rightarrow> string" where
  "toLowerCase s = map lowerChar s"

definition isWordChar :: "char \<Rightarrow> bool" where
  \<comment> \<open>the class \<^verbatim>\<open>\w\<close>, which is \<^verbatim>\<open>[A-Za-z0-9_]\<close>\<close>
  "isWordChar c = (let n = (of_char c :: nat) in
     (48 \<le> n \<and> n \<le> 57) \<or> (65 \<le> n \<and> n \<le> 90) \<or> n = 95 \<or> (97 \<le> n \<and> n \<le> 122))"

definition isSpaceChar :: "char \<Rightarrow> bool" where
  \<comment> \<open>the class \<^verbatim>\<open>\s\<close> below 256: TAB, LF, VT, FF, CR, SPACE, NBSP; \<^verbatim>\<open>trim\<close> strips the same set\<close>
  "isSpaceChar c = (let n = (of_char c :: nat) in (9 \<le> n \<and> n \<le> 13) \<or> n = 32 \<or> n = 160)"

definition isAlphanumeric :: "char \<Rightarrow> bool" where
  \<comment> \<open>an ASCII letter or digit\<close>
  "isAlphanumeric c = (let n = (of_char c :: nat) in
     (48 \<le> n \<and> n \<le> 57) \<or> (65 \<le> n \<and> n \<le> 90) \<or> (97 \<le> n \<and> n \<le> 122))"

definition stripNonWord :: "string \<Rightarrow> string" where
  \<comment> \<open>\<^verbatim>\<open>.replace(/[^\w\s]/g, '')\<close>\<close>
  "stripNonWord s = filter (\<lambda>c. isWordChar c \<or> isSpaceChar c) s"

function collapseSpaces :: "string \<Rightarrow> string" where
  \<comment> \<open>\<^verbatim>\<open>.replace(/\s+/g, ' ')\<close>: each maximal run of white space becomes one space\<close>
  "collapseSpaces [] = []"
| "collapseSpaces (c # cs) =
     (if isSpaceChar c then CHR '' '' # collapseSpaces (dropWhile isSpaceChar cs)
      else c # collapseSpaces cs)"
  by pat_completeness auto
termination
  by (relation "measure length") (auto simp: length_dropWhile_le less_Suc_eq_le)

definition trim :: "string \<Rightarrow> string" where
  "trim s = rev (dropWhile isSpaceChar (rev (dropWhile isSpaceChar s)))"

definition normalizeText :: "string \<Rightarrow> string" where
  "normalizeText text = trim (collapseSpaces (stripNonWord (toLowerCase text)))"

fun split_sp :: "string \<Rightarrow> string list" where
  \<comment> \<open>\<^verbatim>\<open>.split(' ')\<close>; the empty string splits into one empty word\<close>
  "split_sp [] = [[]]"
| "split_sp (c # cs) =
     (if c = CHR '' '' then [] # split_sp cs
      else (case split_sp cs of [] \<Rightarrow> [[c]] | w # ws \<Rightarrow> (c # w) # ws))"

fun join_sp :: "string list \<Rightarrow> string" where
  \<comment> \<open>\<^verbatim>\<open>.join(' ')\<close>\<close>
  "join_sp [] = []"
| "join_sp [w] = w"
| "join_sp (w # v # ws) = w @ CHR '' '' # join_sp (v # ws)"

definition slice :: "'a list \<Rightarrow> nat \<Rightarrow> nat \<Rightarrow> 'a list" where
  \<comment> \<open>\<^verbatim>\<open>.slice(a, b)\<close> and \<^verbatim>\<open>.substring(a, b)\<close> for \<open>a \<le> b\<close>, cut at the end of the list\<close>
  "slice xs a b = take (b - a) (drop a xs)"

fun indexOfFrom :: "string \<Rightarrow> string \<Rightarrow> nat \<Rightarrow> nat option" where
  "indexOfFrom [] p k = (if p = [] then Some k else None)"
| "indexOfFrom (c # cs) p k = (if prefix p (c # cs) then Some k else indexOfFrom cs p (Suc k))"

definition indexOf :: "string \<Rightarrow> string \<Rightarrow> nat option" where
  \<comment> \<open>\<^verbatim>\<open>s.indexOf(p)\<close>: the first offset where \<open>p\<close> occurs in \<open>s\<close>; \<open>None\<close> stands for -1\<close>
  "indexOf s p = indexOfFrom s p 0"

section \<open>Data model\<close>

text \<open>
  The three object shapes of the service that carry a \<^verbatim>\<open>similarity\<close> and a
  \<^verbatim>\<open>matchedText\<close> share these two fields, as TypeScript's structural typing lets them:
  the result of the legacy \<^verbatim>\<open>findSimilarities\<close> has just these two, a match of
  \<^verbatim>\<open>findAllSimilarities\<close> adds the two indices, a \<^verbatim>\<open>PlagiarismMatch\<close> adds the source.
\<close>

record Similarity =
  similarity :: real
  matchedText :: string

record Match = Similarity +
  originalIndex :: int
  sourceIndex :: nat

record PlagiarismMatch = Similarity +
  source :: string
  source_text :: string  \<comment> \<open>the field \<^verbatim>\<open>sourceText\<close>\<close>
  sourceUrl :: "string option"

record CoveredRange =
  range_start :: nat
  range_end :: nat

record AllSimilarities =
  overallSimilarity :: real
  matches :: "Match list"

section \<open>findAllSimilarities\<close>

function extendForward ::
  "string list \<Rightarrow> string \<Rightarrow> string list \<Rightarrow> string \<times> nat \<times> nat \<Rightarrow> string \<times> nat \<times> nat" where
  \<comment> \<open>the \<^verbatim>\<open>while\<close> loop; \<^verbatim>\<open>sourceWords[sourceEnd]\<close> out of range is \<^verbatim>\<open>undefined\<close>, equal to no word\<close>
  "extendForward originalWords normalizedSource sourceWords (extendedMatch, originalEnd, sourceEnd) =
     (if originalEnd < length originalWords \<and>
         sourceEnd < length normalizedSource \<and>
         sourceEnd < length sourceWords \<and>
         originalWords ! originalEnd = sourceWords ! sourceEnd
      then extendForward originalWords normalizedSource sourceWords
             (extendedMatch @ CHR '' '' # originalWords ! originalEnd, Suc originalEnd, Suc sourceEnd)
      else (extendedMatch, originalEnd, sourceEnd))"
  by pat_completeness auto
termination
  by (relation "measure (\<lambda>(ow, ns, sw, em, oe, se). length ow - oe)") auto

definition isCovered :: "CoveredRange list \<Rightarrow> nat \<Rightarrow> bool" where
  \<comment> \<open>\<^verbatim>\<open>coveredRanges.some(range => i >= range.start && i <= range.end)\<close>\<close>
  "isCovered coveredRanges i = list_ex (\<lambda>r. i \<ge> range_start r \<and> i \<le> range_end r) coveredRanges"

definition scanBody ::
  "string \<Rightarrow> string list \<Rightarrow> string \<Rightarrow> string list \<Rightarrow> nat \<Rightarrow> nat \<Rightarrow>
   Match list \<times> CoveredRange list \<Rightarrow> Match list \<times> CoveredRange list" where
  \<comment> \<open>one turn of the inner \<^verbatim>\<open>for\<close> loop, on the local arrays \<^verbatim>\<open>matches\<close> and \<^verbatim>\<open>coveredRanges\<close>\<close>
  "scanBody originalText originalWords normalizedSource sourceWords windowSize i st =
     (if isCovered (snd st) i then st
      else
        let phrase = join_sp (slice originalWords i (i + windowSize)) in
        case indexOf normalizedSource phrase of
          None \<Rightarrow> st
        | Some srcIndex \<Rightarrow>
            let (extendedMatch, originalEnd, sourceEnd) =
                  extendForward originalWords normalizedSource sourceWords
                    (phrase, i + windowSize, srcIndex + length phrase);
                matchLength = length (split_sp extendedMatch);
                similarityScore = (real matchLength / real (length originalWords)) * 100;
                originalPhraseIndex = indexOf (toLowerCase originalText) (toLowerCase extendedMatch);
                actualMatchedText =
                  (case originalPhraseIndex of
                     Some k \<Rightarrow> slice originalText k (k + length extendedMatch + 20)
                   | None \<Rightarrow> extendedMatch)
            in
              if similarityScore > 5
              then (fst st @ [\<lparr>similarity = similarityScore,
                               matchedText = actualMatchedText,
                               originalIndex = (case originalPhraseIndex of Some k \<Rightarrow> int k | None \<Rightarrow> - 1),
                               sourceIndex = srcIndex\<rparr>],
                    snd st @ [\<lparr>range_start = i, range_end = originalEnd - 1\<rparr>])
              else st)"

definition scanWindow ::
  "string \<Rightarrow> string list \<Rightarrow> string \<Rightarrow> string list \<Rightarrow> nat \<Rightarrow>
   Match list \<times> CoveredRange list \<Rightarrow> Match list \<times> CoveredRange list" where
  \<comment> \<open>the inner loop: \<open>i\<close> from 0 to \<open>length originalWords - windowSize\<close>\<close>
  "scanWindow originalText originalWords normalizedSource sourceWords windowSize st =
     fold (scanBody originalText originalWords normalizedSource sourceWords windowSize)
       [0 ..< Suc (length originalWords - windowSize)] st"

definition windowSizes :: "nat \<Rightarrow> nat list" where
  \<comment> \<open>the outer loop's values: from \<open>min 15 n\<close> down to 4\<close>
  "windowSizes n = rev [4 ..< Suc (min 15 n)]"

definition scanAll :: "string \<Rightarrow> string \<Rightarrow> Match list \<times> CoveredRange list" where
  \<comment> \<open>both loops, from empty \<^verbatim>\<open>matches\<close> and \<^verbatim>\<open>coveredRanges\<close>\<close>
  "scanAll originalText sourceText =
     (let normalizedOriginal = normalizeText originalText;
          normalizedSource = normalizeText sourceText;
          originalWords = split_sp normalizedOriginal;
          sourceWords = split_sp normalizedSource
      in fold (scanWindow originalText originalWords normalizedSource sourceWords)
           (windowSizes (length originalWords)) ([], []))"

definition totalCoverage :: "CoveredRange list \<Rightarrow> nat" where
  \<comment> \<open>the \<^verbatim>\<open>reduce\<close> over \<^verbatim>\<open>coveredRanges\<close>; every recorded range has \<open>start \<le> end\<close>\<close>
  "totalCoverage coveredRanges = foldl (\<lambda>total r. total + (range_end r - range_start r + 1)) 0 coveredRanges"

definition sortBySimilarity :: "('a Similarity_scheme) list \<Rightarrow> ('a Similarity_scheme) list" where
  \<comment> \<open>\<^verbatim>\<open>.sort((a, b) => b.similarity - a.similarity)\<close>, a stable sort, highest similarity first\<close>
  "sortBySimilarity ms = sort_key (\<lambda>m. - similarity m) ms"

definition finalCoveredRanges :: "string \<Rightarrow> string \<Rightarrow> CoveredRange list" where
  "finalCoveredRanges originalText sourceText = snd (scanAll originalText sourceText)"

definition findAllSimilarities :: "string \<Rightarrow> string \<Rightarrow> AllSimilarities" where
  "findAllSimilarities originalText sourceText =
     (let originalWords = split_sp (normalizeText originalText);
          (ms, coveredRanges) = scanAll originalText sourceText
      in \<lparr>overallSimilarity =
             min ((real (totalCoverage coveredRanges) / real (length originalWords)) * 100) 100,
           matches = sortBySimilarity ms\<rparr>)"

section \<open>findSimilarities and calculateOverallSimilarity\<close>

definition findSimilarities :: "string \<Rightarrow> string \<Rightarrow> Similarity" where
  "findSimilarities originalText sourceText =
     (let results = findAllSimilarities originalText sourceText
      in \<lparr>similarity = overallSimilarity results,
           matchedText = (if length (matches results) > 0
                          then matchedText (matches results ! 0) else [])\<rparr>)"

definition calculateOverallSimilarity :: "PlagiarismMatch list \<Rightarrow> real" where
  "calculateOverallSimilarity ms =
     (if length ms = 0 then 0
      else
        let totalSimilarity = foldl (\<lambda>sum m. sum + similarity m) 0 ms
        in min (sqrt (totalSimilarity * real (min (length ms) 5)) * 0.8) 100)"

section \<open>The comparison step of checkPlagiarism\<close>

record WikiExtractResult =
  extractText :: string  \<comment> \<open>the field \<^verbatim>\<open>extract\<close>\<close>
  title :: string
  pageid :: nat

definition articleMatches :: "string \<Rightarrow> WikiExtractResult option \<Rightarrow> PlagiarismMatch list" where
  \<comment> \<open>the body of \<^verbatim>\<open>articleContents.forEach\<close>: what one fetched article pushes onto \<^verbatim>\<open>matches\<close>;
      \<open>None\<close> is a \<^verbatim>\<open>null\<close> article, and an empty extract is skipped like it\<close>
  "articleMatches text article =
     (case article of
        None \<Rightarrow> []
      | Some a \<Rightarrow>
          if extractText a = [] then []
          else
            let similarityResults = findAllSimilarities text (extractText a) in
            if overallSimilarity similarityResults > 10
            then map (\<lambda>match.
                   \<lparr>similarity = similarity match,
                    matchedText = matchedText match,
                    source = title a,
                    source_text = slice (extractText a) (sourceIndex match - 50)
                                    (min (length (extractText a))
                                         (sourceIndex match + length (matchedText match) + 50)),
                    sourceUrl = Some (''https://en.wikipedia.org/wiki/'' @
                                      map (\<lambda>c. if c = CHR '' '' then CHR ''_'' else c) (title a))\<rparr>)
                   (matches similarityResults)
            else [])"

definition checkPlagiarism_matches :: "string \<Rightarrow> WikiExtractResult option list \<Rightarrow> PlagiarismMatch list" where
  \<comment> \<open>step 4 of \<^verbatim>\<open>checkPlagiarism\<close> and the sort after it, on the articles the network returned:
      the list that \<^verbatim>\<open>calculateOverallSimilarity\<close> receives\<close>
  "checkPlagiarism_matches text articleContents =
     sortBySimilarity (concat (map (articleMatches text) articleContents))"

section \<open>The normalizer, stated by its words\<close>

function wordsOf :: "string \<Rightarrow> string list" where
  \<comment> \<open>the maximal runs of characters that are not white space, in order\<close>
  "wordsOf s =
     (case dropWhile isSpaceChar s of
        [] \<Rightarrow> []
      | c # cs \<Rightarrow> (c # takeWhile (\<lambda>x. \<not> isSpaceChar x) cs)
                   # wordsOf (dropWhile (\<lambda>x. \<not> isSpaceChar x) cs))"
  by pat_completeness auto
termination
proof (relation "measure length")
  show "wf (measure length)" by simp
next
  fix s :: string and c cs
  assume "dropWhile isSpaceChar s = c # cs"
  then have "length cs < length s"
    using length_dropWhile_le [of isSpaceChar s] by simp
  moreover have "length (dropWhile (\<lambda>x. \<not> isSpaceChar x) cs) \<le> length cs"
    by (rule length_dropWhile_le)
  ultimately show "(dropWhile (\<lambda>x. \<not> isSpaceChar x) cs, s) \<in> measure length" by simp
qed

declare wordsOf.simps [simp del]

definition normalizeSpec :: "(char \<Rightarrow> bool) \<Rightarrow> string \<Rightarrow> string" where
  \<comment> \<open>lowercase, keep the characters that satisfy \<open>keep\<close> and the white space, and join the
      words of what is left with single spaces\<close>
  "normalizeSpec keep text =
     join_sp (wordsOf (filter (\<lambda>c. keep c \<or> isSpaceChar c) (toLowerCase text)))"

definition rtrim :: "string \<Rightarrow> string" where
  \<comment> \<open>the trailing half of \<^verbatim>\<open>trim\<close>\<close>
  "rtrim s = rev (dropWhile isSpaceChar (rev s))"

section \<open>Invariants of the scan\<close>

definition scoresOk :: "Match list \<times> CoveredRange list \<Rightarrow> bool" where
  \<comment> \<open>every recorded match has a similarity above the threshold 5 and at most 100\<close>
  "scoresOk st = (\<forall>m\<in>set (fst st). 5 < similarity m \<and> similarity m \<le> 100)"

definition inRange :: "CoveredRange \<Rightarrow> nat \<Rightarrow> bool" where
  \<comment> \<open>token index \<open>k\<close> belongs to the range\<close>
  "inRange r k = (range_start r \<le> k \<and> k \<le> range_end r)"

definition windowIntersects :: "CoveredRange list \<Rightarrow> nat \<Rightarrow> nat \<Rightarrow> bool" where
  \<comment> \<open>the window \<open>[i, i + windowSize - 1]\<close> shares a token index with some range of the list\<close>
  "windowIntersects coveredRanges i windowSize =
     list_ex (\<lambda>r. range_start r \<le> i + windowSize - 1 \<and> i \<le> range_end r) coveredRanges"

section \<open>Splitting and joining words\<close>

lemma split_sp_not_Nil: "split_sp s \<noteq> []"
  by (induction s) (auto split: list.split)

lemma split_sp_no_space: "w \<in> set (split_sp s) \<Longrightarrow> CHR '' '' \<notin> set w"
  by (induction s arbitrary: w) (auto split: if_splits list.splits)

lemma join_split_sp: "join_sp (split_sp s) = s"
proof (induction s)
  case Nil
  show ?case by simp
next
  case (Cons c cs)
  show ?case
  proof (cases "split_sp cs")
    case Nil
    with split_sp_not_Nil show ?thesis by blast
  next
    case (Cons w ws)
    with Cons.IH show ?thesis by (cases ws) auto
  qed
qed

lemma split_sp_word: "CHR '' '' \<notin> set w \<Longrightarrow> split_sp w = [w]"
  by (induction w) auto

lemma split_sp_append: "CHR '' '' \<notin> set w \<Longrightarrow> split_sp (w @ CHR '' '' # s) = w # split_sp s"
  by (induction w) auto

lemma split_join_sp:
  "ws \<noteq> [] \<Longrightarrow> \<forall>w\<in>set ws. CHR '' '' \<notin> set w \<Longrightarrow> split_sp (join_sp ws) = ws"
  by (induction ws rule: join_sp.induct) (simp_all add: split_sp_word split_sp_append)

lemma join_sp_snoc: "ws \<noteq> [] \<Longrightarrow> join_sp (ws @ [w]) = join_sp ws @ CHR '' '' # w"
  by (induction ws rule: join_sp.induct) simp_all

lemma slice_Suc: "i \<le> e \<Longrightarrow> e < length xs \<Longrightarrow> slice xs i (Suc e) = slice xs i e @ [xs ! e]"
  by (simp add: slice_def Suc_diff_le take_Suc_conv_app_nth)

lemma length_slice: "e \<le> length xs \<Longrightarrow> length (slice xs i e) = e - i"
  by (simp add: slice_def)

lemma set_slice: "set (slice xs i e) \<subseteq> set xs"
  unfolding slice_def by (meson set_drop_subset set_take_subset subset_trans)

section \<open>One turn of the scan\<close>

lemma extendForward_inv:
  "extendForward ow ns sw (em, oe, se) = (em', oe', se') \<Longrightarrow>
   i < oe \<Longrightarrow> oe \<le> length ow \<Longrightarrow> em = join_sp (slice ow i oe) \<Longrightarrow>
   em' = join_sp (slice ow i oe') \<and> oe \<le> oe' \<and> oe' \<le> length ow"
proof (induction ow ns sw "(em, oe, se)" arbitrary: em oe se rule: extendForward.induct)
  case (1 ow ns sw em oe se)
  show ?case
  proof (cases "oe < length ow \<and> se < length ns \<and> se < length sw \<and> ow ! oe = sw ! se")
    case True
    then have lt: "oe < length ow" by simp
    from True "1.prems"(1)
    have run: "extendForward ow ns sw (em @ CHR '' '' # ow ! oe, Suc oe, Suc se) = (em', oe', se')"
      by simp
    have ne: "slice ow i oe \<noteq> []"
      using "1.prems"(2,3) length_slice [of oe ow i] by auto
    have em: "em @ CHR '' '' # ow ! oe = join_sp (slice ow i (Suc oe))"
      using "1.prems"(2,4) lt ne by (simp add: slice_Suc join_sp_snoc)
    from "1.hyps" [OF True run _ _ em] "1.prems"(2) lt
    show ?thesis by simp
  next
    case False
    with "1.prems" show ?thesis by auto
  qed
qed

text \<open>
  A turn of the inner loop either leaves \<^verbatim>\<open>matches\<close> and \<^verbatim>\<open>coveredRanges\<close> as they are,
  or pushes one match and one range \<open>[i, e - 1]\<close>, where \<open>e\<close> is \<^verbatim>\<open>originalEnd\<close> after the
  extension and the match's similarity is \<open>(e - i) / |O| * 100\<close>.
\<close>

lemma scanBody_cases:
  assumes iw: "i + w \<le> length (split_sp N)" and w: "0 < w"
  shows "scanBody T (split_sp N) S SW w i st = st \<or>
    (\<exists>m e. scanBody T (split_sp N) S SW w i st =
              (fst st @ [m], snd st @ [\<lparr>range_start = i, range_end = e - 1\<rparr>])
          \<and> \<not> isCovered (snd st) i
          \<and> i + w \<le> e \<and> e \<le> length (split_sp N)
          \<and> similarity m = real (e - i) / real (length (split_sp N)) * 100
          \<and> 5 < similarity m)"
proof (cases "isCovered (snd st) i")
  case True
  then show ?thesis by (simp add: scanBody_def)
next
  case nc: False
  let ?ow = "split_sp N"
  let ?phrase = "join_sp (slice ?ow i (i + w))"
  show ?thesis
  proof (cases "indexOf S ?phrase")
    case None
    with nc show ?thesis by (simp add: scanBody_def)
  next
    case (Some k)
    obtain em e se where ext: "extendForward ?ow S SW (?phrase, i + w, k + length ?phrase) = (em, e, se)"
      by (cases "extendForward ?ow S SW (?phrase, i + w, k + length ?phrase)") auto
    from extendForward_inv [OF ext, of i] iw w
    have em: "em = join_sp (slice ?ow i e)" and e1: "i + w \<le> e" and e2: "e \<le> length ?ow"
      by auto
    have sl_ne: "slice ?ow i e \<noteq> []"
      using length_slice [OF e2, of i] e1 w by auto
    have "\<forall>x\<in>set (slice ?ow i e). CHR '' '' \<notin> set x"
      using set_slice [of ?ow i e] split_sp_no_space by blast
    with sl_ne have "split_sp em = slice ?ow i e"
      unfolding em by (rule split_join_sp)
    then have ml: "length (split_sp em) = e - i"
      using length_slice [OF e2, of i] by simp
    show ?thesis
      using nc Some ext ml e1 e2
      by (auto simp: scanBody_def Let_def)
  qed
qed

section \<open>Loops as folds\<close>

lemma fold_invariant:
  "P st \<Longrightarrow> (\<And>x st. x \<in> set xs \<Longrightarrow> P st \<Longrightarrow> P (f x st)) \<Longrightarrow> P (fold f xs st)"
  by (induction xs arbitrary: st) simp_all

lemma fold_unchanged: "(\<And>x. x \<in> set xs \<Longrightarrow> f x st = st) \<Longrightarrow> fold f xs st = st"
  by (induction xs) simp_all

section \<open>Sorting and summing matches\<close>

lemma foldl_similarity_sum:
  "foldl (\<lambda>sum m. sum + similarity m) a ms = a + sum_list (map similarity ms)"
  by (induction ms arbitrary: a) simp_all

lemma sum_list_similarity_const:
  "\<forall>m\<in>set ms. similarity m = c \<Longrightarrow> sum_list (map similarity ms) = real (length ms) * c"
  by (induction ms) (simp_all add: algebra_simps)

lemma set_sortBySimilarity: "set (sortBySimilarity ms) = set ms"
  by (simp add: sortBySimilarity_def)

lemma sortBySimilarity_head_max:
  assumes "m \<in> set (sortBySimilarity ms)"
  shows "similarity m \<le> similarity (hd (sortBySimilarity ms))"
proof (cases "sortBySimilarity ms")
  case Nil
  with assms show ?thesis by simp
next
  case (Cons x xs)
  have "sorted (map (\<lambda>m. - similarity m) (sortBySimilarity ms))"
    unfolding sortBySimilarity_def by (rule sorted_sort_key)
  with Cons have "\<forall>y\<in>set xs. - similarity x \<le> - similarity y" by simp
  with assms Cons show ?thesis by auto
qed

lemma example_matches:
  "matches (findAllSimilarities ''p q a b c d e'' ''a b c d e z p q a b'') =
    [\<lparr>similarity = 500 / 7, matchedText = ''a b c d e'', originalIndex = 4, sourceIndex = 0\<rparr>,
     \<lparr>similarity = 400 / 7, matchedText = ''p q a b c d e'', originalIndex = 0, sourceIndex = 12\<rparr>]"
  by code_simp

section \<open>The legacy wrapper\<close>

text \<open>
  C10. \<^verbatim>\<open>findSimilarities\<close> is a wrapper over \<^verbatim>\<open>findAllSimilarities\<close>: its similarity
  is the overall similarity of that result, its matched text is the matched text of the
  first match, or the empty string when there is none; and the first match is one of
  highest similarity, no match of the result has a higher one.
\<close>

theorem findSimilarities_wraps_findAllSimilarities:
  "findSimilarities originalText sourceText =
     \<lparr>similarity = overallSimilarity (findAllSimilarities originalText sourceText),
      matchedText = (case matches (findAllSimilarities originalText sourceText) of
                       [] \<Rightarrow> [] | m # _ \<Rightarrow> matchedText m)\<rparr>
   \<and> (\<forall>m \<in> set (matches (findAllSimilarities originalText sourceText)).
         similarity m \<le> similarity (hd (matches (findAllSimilarities originalText sourceText))))"
proof -
  have "\<And>m. m \<in> set (matches (findAllSimilarities originalText sourceText)) \<Longrightarrow>
     similarity m \<le> similarity (hd (matches (findAllSimilarities originalText sourceText)))"
    by (simp add: findAllSimilarities_def Let_def split_beta sortBySimilarity_head_max)
  moreover have "findSimilarities originalText sourceText =
     \<lparr>similarity = overallSimilarity (findAllSimilarities originalText sourceText),
      matchedText = (case matches (findAllSimilarities originalText sourceText) of
                       [] \<Rightarrow> [] | m # _ \<Rightarrow> matchedText m)\<rparr>"
    by (simp add: findSimilarities_def Let_def split: list.split)
  ultimately show ?thesis by blast
qed

theorem findSimilarities_wraps_witness:
  "findSimilarities ''p q a b c d e'' ''a b c d e z p q a b'' =
     \<lparr>similarity = 100, matchedText = ''a b c d e''\<rparr>
   \<and> similarity (matches (findAllSimilarities ''p q a b c d e'' ''a b c d e z p q a b'') ! 1)
       \<le> similarity (hd (matches (findAllSimilarities ''p q a b c d e'' ''a b c d e z p q a b'')))"
proof -
  have o: "overallSimilarity (findAllSimilarities ''p q a b c d e'' ''a b c d e z p q a b'') = 100"
    by code_simp
  show ?thesis
    using findSimilarities_wraps_findAllSimilarities [of "''p q a b c d e''" "''a b c d e z p q a b''"]
    by (simp add: example_matches o)
qed

section \<open>The aggregate score\<close>

text \<open>
  C5. \<^verbatim>\<open>calculateOverallSimilarity\<close> returns 0 on the empty list and otherwise
  \<open>min (sqrt (sum of the similarities * min (number of matches) 5) * 0.8) 100\<close>; on five
  matches of similarity 20 each that is \<open>min (sqrt 500 * 0.8) 100\<close>, which lies between
  17.88 and 17.89. (Over the reals; the source computes in doubles.)
\<close>

theorem calculateOverallSimilarity_formula:
  "calculateOverallSimilarity ms =
     (if ms = [] then 0
      else min (sqrt (sum_list (map similarity ms) * real (min (length ms) 5)) * 0.8) 100)
   \<and> (length ms = 5 \<and> (\<forall>m \<in> set ms. similarity m = 20) \<longrightarrow>
        calculateOverallSimilarity ms = min (sqrt 500 * 0.8) 100
        \<and> 17.88 < calculateOverallSimilarity ms \<and> calculateOverallSimilarity ms < 17.89)"
proof -
  have gen: "calculateOverallSimilarity ms =
     (if ms = [] then 0
      else min (sqrt (sum_list (map similarity ms) * real (min (length ms) 5)) * 0.8) 100)"
    by (simp add: calculateOverallSimilarity_def Let_def foldl_similarity_sum)
  have five: "calculateOverallSimilarity ms = min (sqrt 500 * 0.8) 100
        \<and> 17.88 < calculateOverallSimilarity ms \<and> calculateOverallSimilarity ms < 17.89"
    if len: "length ms = 5" and all: "\<forall>m \<in> set ms. similarity m = 20"
  proof -
    have s: "sum_list (map similarity ms) = 100"
      using sum_list_similarity_const [OF all] len by simp
    from len have ne: "ms \<noteq> []" by auto
    have v: "calculateOverallSimilarity ms = min (sqrt 500 * 0.8) 100"
      using gen s ne len by simp
    have lo: "(22.35::real) < sqrt 500" by (rule real_less_rsqrt) (simp add: power2_eq_square)
    have hi: "sqrt 500 < (22.3625::real)" by (rule real_less_lsqrt) (simp_all add: power2_eq_square)
    from lo hi v show ?thesis by (simp add: min_def)
  qed
  from gen five show ?thesis by blast
qed

theorem calculateOverallSimilarity_formula_witness:
  "length (replicate 5 \<lparr>similarity = 20, matchedText = ''a b c d'', source = ''A'',
                         source_text = ''a b c d'', sourceUrl = None\<rparr>) = 5
   \<and> 17.88 < calculateOverallSimilarity
               (replicate 5 \<lparr>similarity = 20, matchedText = ''a b c d'', source = ''A'',
                              source_text = ''a b c d'', sourceUrl = None\<rparr>)
   \<and> calculateOverallSimilarity
       (replicate 5 \<lparr>similarity = 20, matchedText = ''a b c d'', source = ''A'',
                      source_text = ''a b c d'', sourceUrl = None\<rparr>) < 17.89
   \<and> calculateOverallSimilarity [] = 0"
proof -
  let ?ms = "replicate 5 \<lparr>similarity = 20, matchedText = ''a b c d'', source = ''A'',
                           source_text = ''a b c d'', sourceUrl = None\<rparr>"
  have h: "length ?ms = 5 \<and> (\<forall>m \<in> set ?ms. similarity m = 20)" by simp
  with calculateOverallSimilarity_formula [of ?ms]
  have "17.88 < calculateOverallSimilarity ?ms \<and> calculateOverallSimilarity ?ms < 17.89"
    by blast
  moreover have "calculateOverallSimilarity [] = 0"
    using calculateOverallSimilarity_formula [of "[]"] by simp
  ultimately show ?thesis using h by blast
qed

section \<open>Scores stay in range\<close>

lemma scanBody_scoresOk:
  assumes "i + w \<le> length (split_sp N)" "0 < w" "scoresOk st"
  shows "scoresOk (scanBody T (split_sp N) S SW w i st)"
proof -
  from scanBody_cases [OF assms(1,2), of T S SW st]
  show ?thesis
  proof
    assume "scanBody T (split_sp N) S SW w i st = st"
    with assms(3) show ?thesis by simp
  next
    assume "\<exists>m e. scanBody T (split_sp N) S SW w i st =
              (fst st @ [m], snd st @ [\<lparr>range_start = i, range_end = e - 1\<rparr>])
          \<and> \<not> isCovered (snd st) i
          \<and> i + w \<le> e \<and> e \<le> length (split_sp N)
          \<and> similarity m = real (e - i) / real (length (split_sp N)) * 100
          \<and> 5 < similarity m"
    then obtain m e where
      eq: "scanBody T (split_sp N) S SW w i st =
              (fst st @ [m], snd st @ [\<lparr>range_start = i, range_end = e - 1\<rparr>])"
      and e: "e \<le> length (split_sp N)"
      and sim: "similarity m = real (e - i) / real (length (split_sp N)) * 100"
      and lo: "5 < similarity m"
      by blast
    have "0 < length (split_sp N)" using split_sp_not_Nil by simp
    with e have "real (e - i) / real (length (split_sp N)) \<le> 1" by simp
    then have "real (e - i) / real (length (split_sp N)) * 100 \<le> 1 * 100"
      by (rule mult_right_mono) simp
    then have "similarity m \<le> 100" by (simp only: sim mult_1)
    with lo eq assms(3) show ?thesis by (auto simp: scoresOk_def)
  qed
qed

lemma scanWindow_scoresOk:
  assumes "0 < w" "w \<le> length (split_sp N)" "scoresOk st"
  shows "scoresOk (scanWindow T (split_sp N) S SW w st)"
  unfolding scanWindow_def
proof (rule fold_invariant [where P = scoresOk])
  show "scoresOk st" by fact
next
  fix i st'
  assume "i \<in> set [0..<Suc (length (split_sp N) - w)]" and ok: "scoresOk st'"
  with assms(2) have "i + w \<le> length (split_sp N)" by auto
  from scanBody_scoresOk [OF this assms(1) ok]
  show "scoresOk (scanBody T (split_sp N) S SW w i st')" .
qed

lemma windowSizes_bounds: "w \<in> set (windowSizes n) \<Longrightarrow> 4 \<le> w \<and> w \<le> n \<and> w \<le> 15"
  by (auto simp: windowSizes_def)

lemma scanAll_scoresOk: "scoresOk (scanAll originalText sourceText)"
  unfolding scanAll_def Let_def
proof (rule fold_invariant [where P = scoresOk])
  show "scoresOk ([], [])" by (simp add: scoresOk_def)
next
  fix w st
  assume "w \<in> set (windowSizes (length (split_sp (normalizeText originalText))))"
    and ok: "scoresOk st"
  then have "0 < w" "w \<le> length (split_sp (normalizeText originalText))"
    using windowSizes_bounds by force+
  from scanWindow_scoresOk [OF this ok]
  show "scoresOk (scanWindow originalText (split_sp (normalizeText originalText))
          (normalizeText sourceText) (split_sp (normalizeText sourceText)) w st)" .
qed

lemma findAllSimilarities_match_bounds:
  "m \<in> set (matches (findAllSimilarities originalText sourceText)) \<Longrightarrow>
   5 < similarity m \<and> similarity m \<le> 100"
  using scanAll_scoresOk [of originalText sourceText]
  by (auto simp: findAllSimilarities_def Let_def split_beta set_sortBySimilarity scoresOk_def)

lemma findAllSimilarities_overall_bounds:
  "0 \<le> overallSimilarity (findAllSimilarities originalText sourceText) \<and>
   overallSimilarity (findAllSimilarities originalText sourceText) \<le> 100"
  by (simp add: findAllSimilarities_def Let_def split_beta)

lemma calculateOverallSimilarity_bounds:
  assumes "\<forall>m\<in>set ms. 0 \<le> similarity m"
  shows "0 \<le> calculateOverallSimilarity ms \<and> calculateOverallSimilarity ms \<le> 100"
proof -
  from assms have "0 \<le> sum_list (map similarity ms)" by (intro sum_list_nonneg) auto
  then show ?thesis
    by (simp add: calculateOverallSimilarity_def Let_def foldl_similarity_sum)
qed

lemma articleMatches_nonneg: "m \<in> set (articleMatches text article) \<Longrightarrow> 0 \<le> similarity m"
  using findAllSimilarities_match_bounds
  by (fastforce simp: articleMatches_def Let_def split: option.splits if_splits)

lemma checkPlagiarism_matches_nonneg:
  "m \<in> set (checkPlagiarism_matches text articleContents) \<Longrightarrow> 0 \<le> similarity m"
  using articleMatches_nonneg
  by (auto simp: checkPlagiarism_matches_def set_sortBySimilarity)

text \<open>
  C8. Every score lies in [0,100]: the overall similarity that \<^verbatim>\<open>findAllSimilarities\<close>
  returns and the similarity of each of its matches, for all texts; the value of
  \<^verbatim>\<open>calculateOverallSimilarity\<close> on every list of matches whose similarities are not
  negative, and so on every list that \<^verbatim>\<open>checkPlagiarism\<close> passes to it.
\<close>

theorem scores_in_range:
  "0 \<le> overallSimilarity (findAllSimilarities originalText sourceText)
   \<and> overallSimilarity (findAllSimilarities originalText sourceText) \<le> 100
   \<and> (\<forall>m \<in> set (matches (findAllSimilarities originalText sourceText)).
         0 \<le> similarity m \<and> similarity m \<le> 100)
   \<and> ((\<forall>m \<in> set ms. 0 \<le> similarity m) \<longrightarrow>
         0 \<le> calculateOverallSimilarity ms \<and> calculateOverallSimilarity ms \<le> 100)
   \<and> 0 \<le> calculateOverallSimilarity (checkPlagiarism_matches text articleContents)
   \<and> calculateOverallSimilarity (checkPlagiarism_matches text articleContents) \<le> 100"
proof -
  have "\<forall>m \<in> set (matches (findAllSimilarities originalText sourceText)).
         0 \<le> similarity m \<and> similarity m \<le> 100"
    using findAllSimilarities_match_bounds [of _ originalText sourceText] by fastforce
  moreover have "\<forall>m \<in> set (checkPlagiarism_matches text articleContents). 0 \<le> similarity m"
    using checkPlagiarism_matches_nonneg by blast
  ultimately show ?thesis
    using findAllSimilarities_overall_bounds [of originalText sourceText]
      calculateOverallSimilarity_bounds
    by blast
qed

theorem scores_in_range_witness:
  "\<lparr>similarity = 500 / 7, matchedText = ''a b c d e'', originalIndex = 4, sourceIndex = 0\<rparr>
     \<in> set (matches (findAllSimilarities ''p q a b c d e'' ''a b c d e z p q a b''))
   \<and> 0 \<le> similarity \<lparr>similarity = 20, matchedText = ''a b c d'', source = ''A'',
                     source_text = ''a b c d'', sourceUrl = None\<rparr>
   \<and> 0 \<le> calculateOverallSimilarity [\<lparr>similarity = 20, matchedText = ''a b c d'', source = ''A'',
                     source_text = ''a b c d'', sourceUrl = None\<rparr>]
   \<and> calculateOverallSimilarity [\<lparr>similarity = 20, matchedText = ''a b c d'', source = ''A'',
                     source_text = ''a b c d'', sourceUrl = None\<rparr>] \<le> 100
   \<and> overallSimilarity (findAllSimilarities ''p q a b c d e'' ''a b c d e z p q a b'') \<le> 100"
proof -
  let ?pm = "\<lparr>similarity = 20, matchedText = ''a b c d'', source = ''A'',
               source_text = ''a b c d'', sourceUrl = None\<rparr>"
  have h: "\<forall>m \<in> set [?pm]. 0 \<le> similarity m" by simp
  show ?thesis
    using scores_in_range [of "''p q a b c d e''" "''a b c d e z p q a b''" "[?pm]" "[]" "[]"] h
    by (simp add: example_matches)
qed

section \<open>Empty and short inputs\<close>

lemma windowSizes_small: "n < 4 \<Longrightarrow> windowSizes n = []"
  by (simp add: windowSizes_def)

lemma normalizeText_Nil: "normalizeText [] = []"
  by (simp add: normalizeText_def toLowerCase_def stripNonWord_def trim_def)

lemma findAllSimilarities_short:
  "length (split_sp (normalizeText originalText)) < 4 \<Longrightarrow>
   findAllSimilarities originalText sourceText = \<lparr>overallSimilarity = 0, matches = []\<rparr>"
  by (simp add: findAllSimilarities_def scanAll_def windowSizes_small totalCoverage_def
      sortBySimilarity_def Let_def)

lemma join_sp_Nil: "join_sp ws = [] \<Longrightarrow> length ws \<le> 1"
  by (cases ws rule: join_sp.cases) simp_all

lemma indexOf_in_Nil: "p \<noteq> [] \<Longrightarrow> indexOf [] p = None"
  by (simp add: indexOf_def)

lemma scanBody_empty_source:
  assumes "i + w \<le> length ow" "2 \<le> w"
  shows "scanBody T ow [] sw w i st = st"
proof -
  have "length (slice ow i (i + w)) = w"
    using length_slice [OF assms(1), of i] by simp
  with assms(2) have "join_sp (slice ow i (i + w)) \<noteq> []"
    using join_sp_Nil [of "slice ow i (i + w)"] by auto
  then show ?thesis by (simp add: scanBody_def indexOf_in_Nil)
qed

lemma scanWindow_empty_source:
  assumes "2 \<le> w" "w \<le> length ow"
  shows "scanWindow T ow [] sw w st = st"
  unfolding scanWindow_def
proof (rule fold_unchanged)
  fix i assume "i \<in> set [0..<Suc (length ow - w)]"
  with assms(2) have "i + w \<le> length ow" by auto
  then show "scanBody T ow [] sw w i st = st" using assms(1) by (rule scanBody_empty_source)
qed

lemma scanAll_empty_source: "scanAll originalText [] = ([], [])"
  unfolding scanAll_def Let_def normalizeText_Nil
proof (rule fold_unchanged)
  fix w assume "w \<in> set (windowSizes (length (split_sp (normalizeText originalText))))"
  then have "2 \<le> w" "w \<le> length (split_sp (normalizeText originalText))"
    using windowSizes_bounds by force+
  then show "scanWindow originalText (split_sp (normalizeText originalText)) [] (split_sp []) w ([], []) = ([], [])"
    by (rule scanWindow_empty_source)
qed

text \<open>
  C7. \<^verbatim>\<open>findAllSimilarities("", s)\<close> and \<^verbatim>\<open>findAllSimilarities(s, "")\<close> return overall
  similarity 0 and no match, for every string \<open>s\<close>; and so does every call whose original
  normalizes to the empty string (its word list is then the one empty word) or has fewer
  than four words, so that \<open>min 15 |O| < 4\<close> and the outer loop never runs.
\<close>

theorem empty_inputs_give_empty_result:
  "findAllSimilarities [] s = \<lparr>overallSimilarity = 0, matches = []\<rparr>
   \<and> findAllSimilarities s [] = \<lparr>overallSimilarity = 0, matches = []\<rparr>
   \<and> (normalizeText originalText = [] \<or> min 15 (length (split_sp (normalizeText originalText))) < 4
        \<longrightarrow> findAllSimilarities originalText sourceText = \<lparr>overallSimilarity = 0, matches = []\<rparr>)"
proof -
  have a: "findAllSimilarities [] s = \<lparr>overallSimilarity = 0, matches = []\<rparr>"
    by (rule findAllSimilarities_short) (simp add: normalizeText_Nil)
  have b: "findAllSimilarities s [] = \<lparr>overallSimilarity = 0, matches = []\<rparr>"
    by (simp add: findAllSimilarities_def scanAll_empty_source totalCoverage_def
        sortBySimilarity_def Let_def)
  have c: "findAllSimilarities originalText sourceText = \<lparr>overallSimilarity = 0, matches = []\<rparr>"
    if "normalizeText originalText = [] \<or> min 15 (length (split_sp (normalizeText originalText))) < 4"
  proof -
    from that have "length (split_sp (normalizeText originalText)) < 4" by auto
    then show ?thesis by (rule findAllSimilarities_short)
  qed
  from a b c show ?thesis by blast
qed

theorem empty_inputs_witness:
  "min 15 (length (split_sp (normalizeText ''One, two; three!''))) < 4
   \<and> findAllSimilarities ''One, two; three!'' ''one two three'' = \<lparr>overallSimilarity = 0, matches = []\<rparr>
   \<and> findAllSimilarities '''' ''anything'' = \<lparr>overallSimilarity = 0, matches = []\<rparr>
   \<and> findAllSimilarities ''anything'' '''' = \<lparr>overallSimilarity = 0, matches = []\<rparr>"
proof -
  have h: "min 15 (length (split_sp (normalizeText ''One, two; three!''))) < 4" by code_simp
  show ?thesis
    using empty_inputs_give_empty_result [of "''anything''" "''One, two; three!''" "''one two three''"] h
    by blast
qed

section \<open>Identical texts\<close>

lemma indexOf_self: "indexOf s s = Some 0"
  by (cases s) (simp_all add: indexOf_def)

lemma slice_all: "slice xs 0 (length xs) = xs"
  by (simp add: slice_def)

lemma windowSizes_unfold: "4 \<le> n \<Longrightarrow> n \<le> 15 \<Longrightarrow> windowSizes n = n # rev [4..<n]"
  by (simp add: windowSizes_def min_def)

lemma scanBody_whole:
  assumes n: "4 \<le> length (split_sp N)"
  shows "\<exists>m. scanBody T (split_sp N) N (split_sp N) (length (split_sp N)) 0 ([], []) =
           ([m], [\<lparr>range_start = 0, range_end = length (split_sp N) - 1\<rparr>]) \<and> similarity m = 100"
proof -
  have ext: "extendForward (split_sp N) N (split_sp N) (N, length (split_sp N), length N)
             = (N, length (split_sp N), length N)"
    by simp
  from n have pos: "real (length (split_sp N)) \<noteq> 0" by auto
  show ?thesis
    using n pos
    by (simp add: scanBody_def isCovered_def slice_all join_split_sp indexOf_self ext Let_def)
qed


lemma scanWindow_all_covered:
  assumes "1 \<le> w" "w \<le> n"
  shows "scanWindow T ow S sw w (ms, [\<lparr>range_start = 0, range_end = length ow - 1\<rparr>]) =
           (ms, [\<lparr>range_start = 0, range_end = length ow - 1\<rparr>])"
  unfolding scanWindow_def
proof (rule fold_unchanged)
  fix i assume "i \<in> set [0..<Suc (length ow - w)]"
  with assms(1) have "i \<le> length ow - 1" by auto
  then show "scanBody T ow S sw w i (ms, [\<lparr>range_start = 0, range_end = length ow - 1\<rparr>]) =
           (ms, [\<lparr>range_start = 0, range_end = length ow - 1\<rparr>])"
    by (simp add: scanBody_def isCovered_def)
qed

lemma scanAll_identical:
  assumes lo: "4 \<le> length (split_sp (normalizeText t))"
    and hi: "length (split_sp (normalizeText t)) \<le> 15"
  shows "\<exists>m. scanAll t t = ([m], [\<lparr>range_start = 0, range_end = length (split_sp (normalizeText t)) - 1\<rparr>])
              \<and> similarity m = 100"
proof -
  let ?N = "normalizeText t"
  let ?n = "length (split_sp ?N)"
  from scanBody_whole [OF lo, of t] obtain m where
    m: "scanBody t (split_sp ?N) ?N (split_sp ?N) ?n 0 ([], []) =
           ([m], [\<lparr>range_start = 0, range_end = ?n - 1\<rparr>])" and sim: "similarity m = 100"
    by blast
  have first: "scanWindow t (split_sp ?N) ?N (split_sp ?N) ?n ([], []) =
           ([m], [\<lparr>range_start = 0, range_end = ?n - 1\<rparr>])"
    by (simp add: scanWindow_def m)
  have rest: "fold (scanWindow t (split_sp ?N) ?N (split_sp ?N)) (rev [4..<?n])
                ([m], [\<lparr>range_start = 0, range_end = ?n - 1\<rparr>]) =
              ([m], [\<lparr>range_start = 0, range_end = ?n - 1\<rparr>])"
  proof (rule fold_unchanged)
    fix w assume "w \<in> set (rev [4..<?n])"
    then have "1 \<le> w" "w \<le> ?n" by auto
    then show "scanWindow t (split_sp ?N) ?N (split_sp ?N) w
                 ([m], [\<lparr>range_start = 0, range_end = ?n - 1\<rparr>]) =
               ([m], [\<lparr>range_start = 0, range_end = ?n - 1\<rparr>])"
      by (rule scanWindow_all_covered)
  qed
  have "scanAll t t = fold (scanWindow t (split_sp ?N) ?N (split_sp ?N)) (?n # rev [4..<?n]) ([], [])"
    by (simp only: scanAll_def Let_def windowSizes_unfold [OF lo hi])
  also have "\<dots> = fold (scanWindow t (split_sp ?N) ?N (split_sp ?N)) (rev [4..<?n])
                      (scanWindow t (split_sp ?N) ?N (split_sp ?N) ?n ([], []))"
    by simp
  also have "\<dots> = ([m], [\<lparr>range_start = 0, range_end = ?n - 1\<rparr>])"
    by (simp only: first rest)
  finally show ?thesis using sim by blast
qed

text \<open>
  When the source text equals the original text and the normalized original has between 4
  and 15 words, the first window is the whole text: it is found at offset 0, nothing is left
  to extend, and the one recorded range \<open>[0, |O| - 1]\<close> covers the document with overall
  similarity 100.
\<close>

lemma identical_text_fully_covered:
  assumes "4 \<le> length (split_sp (normalizeText originalText))"
    and "length (split_sp (normalizeText originalText)) \<le> 15"
  shows "overallSimilarity (findAllSimilarities originalText originalText) = 100
       \<and> finalCoveredRanges originalText originalText =
           [\<lparr>range_start = 0, range_end = length (split_sp (normalizeText originalText)) - 1\<rparr>]
       \<and> map similarity (matches (findAllSimilarities originalText originalText)) = [100]"
proof -
  from scanAll_identical [OF assms] obtain m where
    sc: "scanAll originalText originalText =
          ([m], [\<lparr>range_start = 0, range_end = length (split_sp (normalizeText originalText)) - 1\<rparr>])"
    and sim: "similarity m = 100"
    by blast
  from assms(1) have cov: "totalCoverage
      [\<lparr>range_start = 0, range_end = length (split_sp (normalizeText originalText)) - Suc 0\<rparr>] =
      length (split_sp (normalizeText originalText))"
    by (simp add: totalCoverage_def)
  have "overallSimilarity (findAllSimilarities originalText originalText) = 100"
    by (simp add: findAllSimilarities_def Let_def sc cov split_sp_not_Nil)
  moreover have "finalCoveredRanges originalText originalText =
           [\<lparr>range_start = 0, range_end = length (split_sp (normalizeText originalText)) - 1\<rparr>]"
    by (simp add: finalCoveredRanges_def sc)
  moreover have "map similarity (matches (findAllSimilarities originalText originalText)) = [100]"
    by (simp add: findAllSimilarities_def Let_def sc sortBySimilarity_def sim)
  ultimately show ?thesis by blast
qed

text \<open>
  C4. An exact duplicate is claimed to score at least 95 with one match covering the whole
  document. On a text of sixteen words compared with itself, the first window of fifteen
  words is found at offset 0 and the sixteenth word is the next word of both texts, but the
  extension loop reads \<^verbatim>\<open>sourceWords\<close> at a character offset and stops at once: the one
  recorded range is \<open>[0, 14]\<close>, the last word stays uncovered, and the one match and the
  overall similarity are 93.75.
\<close>

theorem exact_duplicate_not_fully_covered:
  "length (split_sp (normalizeText
      ''The quick brown fox jumps over the lazy dog and then runs far away from here'')) = 16
   \<and> finalCoveredRanges
        ''The quick brown fox jumps over the lazy dog and then runs far away from here''
        ''The quick brown fox jumps over the lazy dog and then runs far away from here''
      = [\<lparr>range_start = 0, range_end = 14\<rparr>]
   \<and> map similarity (matches (findAllSimilarities
        ''The quick brown fox jumps over the lazy dog and then runs far away from here''
        ''The quick brown fox jumps over the lazy dog and then runs far away from here''))
      = [93.75]
   \<and> overallSimilarity (findAllSimilarities
        ''The quick brown fox jumps over the lazy dog and then runs far away from here''
        ''The quick brown fox jumps over the lazy dog and then runs far away from here'')
      = 93.75
   \<and> \<not> 95 \<le> overallSimilarity (findAllSimilarities
        ''The quick brown fox jumps over the lazy dog and then runs far away from here''
        ''The quick brown fox jumps over the lazy dog and then runs far away from here'')"
proof -
  let ?T = "''The quick brown fox jumps over the lazy dog and then runs far away from here''"
  have n: "length (split_sp (normalizeText ?T)) = 16"
    by code_simp
  have sc: "scanAll ?T ?T =
      ([\<lparr>similarity = 93.75,
         matchedText = ''The quick brown fox jumps over the lazy dog and then runs far away from here'',
         originalIndex = 0, sourceIndex = 0\<rparr>],
       [\<lparr>range_start = 0, range_end = 14\<rparr>])"
    by code_simp
  have cov: "totalCoverage [\<lparr>range_start = 0, range_end = 14\<rparr>] = 15"
    by (simp add: totalCoverage_def)
  have fa: "findAllSimilarities ?T ?T =
      \<lparr>overallSimilarity = 93.75,
       matches = [\<lparr>similarity = 93.75,
         matchedText = ''The quick brown fox jumps over the lazy dog and then runs far away from here'',
         originalIndex = 0, sourceIndex = 0\<rparr>]\<rparr>"
    by (simp add: findAllSimilarities_def Let_def sc n cov sortBySimilarity_def)
  show ?thesis
    by (simp add: fa n finalCoveredRanges_def sc)
qed

section \<open>The normalizer\<close>

lemma wordsOf_Nil [simp]: "wordsOf [] = []"
  by (simp add: wordsOf.simps)

lemma wordsOf_space [simp]: "isSpaceChar c \<Longrightarrow> wordsOf (c # cs) = wordsOf cs"
  by (subst wordsOf.simps, subst (2) wordsOf.simps) simp

lemma wordsOf_letter:
  "\<not> isSpaceChar c \<Longrightarrow>
   wordsOf (c # cs) = (c # takeWhile (\<lambda>x. \<not> isSpaceChar x) cs)
                        # wordsOf (dropWhile (\<lambda>x. \<not> isSpaceChar x) cs)"
  by (subst wordsOf.simps) simp

lemma wordsOf_dropWhile [simp]: "wordsOf (dropWhile isSpaceChar s) = wordsOf s"
  by (induction s) simp_all

lemma wordsOf_letter_letter:
  "\<not> isSpaceChar c \<Longrightarrow> \<not> isSpaceChar d \<Longrightarrow>
   wordsOf (c # d # ds) = (c # hd (wordsOf (d # ds))) # tl (wordsOf (d # ds))"
  by (simp add: wordsOf_letter)

lemma wordsOf_letter_space:
  "\<not> isSpaceChar c \<Longrightarrow> isSpaceChar d \<Longrightarrow> wordsOf (c # d # ds) = [c] # wordsOf ds"
  by (simp add: wordsOf_letter)

lemma wordsOf_words_nonempty: "w \<in> set (wordsOf s) \<Longrightarrow> w \<noteq> []"
proof (induction s arbitrary: w rule: wordsOf.induct)
  case (1 s)
  show ?case
  proof (cases "dropWhile isSpaceChar s")
    case Nil
    with "1.prems" show ?thesis by (subst (asm) wordsOf.simps) simp
  next
    case (Cons c cs)
    with "1.prems" "1.IH" [OF Cons] show ?thesis
      by (subst (asm) wordsOf.simps) auto
  qed
qed

lemma wordsOf_words_chars:
  "w \<in> set (wordsOf s) \<Longrightarrow> c \<in> set w \<Longrightarrow> \<not> isSpaceChar c \<and> c \<in> set s"
proof (induction s arbitrary: w rule: wordsOf.induct)
  case (1 s)
  show ?case
  proof (cases "dropWhile isSpaceChar s")
    case Nil
    with "1.prems" show ?thesis by (subst (asm) wordsOf.simps) simp
  next
    case (Cons d ds)
    have d: "\<not> isSpaceChar d" using Cons hd_dropWhile [of isSpaceChar s] by auto
    have sub: "set (d # ds) \<subseteq> set s" using Cons set_dropWhileD [of _ isSpaceChar s] by auto
    from "1.prems"(1) Cons
    have "w = d # takeWhile (\<lambda>x. \<not> isSpaceChar x) ds
          \<or> w \<in> set (wordsOf (dropWhile (\<lambda>x. \<not> isSpaceChar x) ds))"
      by (subst (asm) wordsOf.simps) simp
    then show ?thesis
    proof
      assume w: "w = d # takeWhile (\<lambda>x. \<not> isSpaceChar x) ds"
      with "1.prems"(2) have "c = d \<or> c \<in> set (takeWhile (\<lambda>x. \<not> isSpaceChar x) ds)" by simp
      then show ?thesis
        using d sub set_takeWhileD [of c "\<lambda>x. \<not> isSpaceChar x" ds] by auto
    next
      assume "w \<in> set (wordsOf (dropWhile (\<lambda>x. \<not> isSpaceChar x) ds))"
      from "1.IH" [OF Cons this "1.prems"(2)]
      show ?thesis using sub set_dropWhileD [of c "\<lambda>x. \<not> isSpaceChar x" ds] by auto
    qed
  qed
qed


lemma rtrim_Nil [simp]: "rtrim [] = []"
  by (simp add: rtrim_def)

lemma rtrim_Cons:
  "rtrim (x # xs) = (if isSpaceChar x \<and> rtrim xs = [] then [] else x # rtrim xs)"
  by (auto simp: rtrim_def dropWhile_append)

lemma trim_rtrim: "trim s = rtrim (dropWhile isSpaceChar s)"
  by (simp add: trim_def rtrim_def)

lemma collapseSpaces_no_leading:
  "s = [] \<or> \<not> isSpaceChar (hd s) \<Longrightarrow> dropWhile isSpaceChar (collapseSpaces s) = collapseSpaces s"
  by (cases s) auto

lemma dropWhile_no_leading:
  "dropWhile isSpaceChar s = [] \<or> \<not> isSpaceChar (hd (dropWhile isSpaceChar s))"
  using hd_dropWhile [of isSpaceChar s] by blast

lemma dropWhile_collapseSpaces:
  "dropWhile isSpaceChar (collapseSpaces s) = collapseSpaces (dropWhile isSpaceChar s)"
proof (cases s)
  case Nil
  then show ?thesis by simp
next
  case (Cons c cs)
  show ?thesis
  proof (cases "isSpaceChar c")
    case True
    have "isSpaceChar (CHR '' '')" by (simp add: isSpaceChar_def)
    with True Cons show ?thesis
      using collapseSpaces_no_leading [OF dropWhile_no_leading [of cs]] by simp
  next
    case False
    with Cons show ?thesis by simp
  qed
qed

lemma join_sp_Cons:
  "join_sp (w # ws) = (if ws = [] then w else w @ CHR '' '' # join_sp ws)"
  by (cases ws) simp_all

lemma join_sp_wordsOf_Nil: "join_sp (wordsOf s) = [] \<longleftrightarrow> wordsOf s = []"
proof (cases "wordsOf s")
  case Nil
  then show ?thesis by simp
next
  case (Cons w ws)
  then have "w \<noteq> []" using wordsOf_words_nonempty [of w s] by simp
  with Cons show ?thesis by (simp add: join_sp_Cons)
qed

lemma rtrim_collapseSpaces:
  "rtrim (collapseSpaces s) =
     (if s \<noteq> [] \<and> isSpaceChar (hd s)
      then (if wordsOf s = [] then [] else CHR '' '' # join_sp (wordsOf s))
      else join_sp (wordsOf s))"
proof (induction s rule: collapseSpaces.induct)
  case 1
  show ?case by simp
next
  case (2 c cs)
  have sp: "isSpaceChar (CHR '' '')" by (simp add: isSpaceChar_def)
  show ?case
  proof (cases "isSpaceChar c")
    case True
    let ?v = "dropWhile isSpaceChar cs"
    from dropWhile_no_leading [of cs]
    have "\<not> (?v \<noteq> [] \<and> isSpaceChar (hd ?v))" by blast
    with "2.IH"(1) [OF True] have ih: "rtrim (collapseSpaces ?v) = join_sp (wordsOf cs)"
      by simp
    from True show ?thesis
      by (simp add: rtrim_Cons ih sp join_sp_wordsOf_Nil)
  next
    case False
    note ih = "2.IH"(2) [OF False]
    show ?thesis
    proof (cases cs)
      case Nil
      with False show ?thesis by (simp add: rtrim_Cons wordsOf_letter)
    next
      case (Cons d ds)
      show ?thesis
      proof (cases "isSpaceChar d")
        case True
        with False Cons ih show ?thesis
          by (simp add: rtrim_Cons wordsOf_letter_space join_sp_Cons)
      next
        case nd: False
        from nd have ne: "wordsOf (d # ds) \<noteq> []" by (simp add: wordsOf_letter)
        then obtain w ws where wws: "wordsOf (d # ds) = w # ws" by (cases "wordsOf (d # ds)") auto
        have "wordsOf (c # d # ds) = (c # w) # ws"
          using wordsOf_letter_letter [OF False nd, of ds] wws by simp
        with False Cons ih nd wws show ?thesis
          by (simp add: rtrim_Cons join_sp_Cons)
      qed
    qed
  qed
qed

lemma trim_collapseSpaces: "trim (collapseSpaces s) = join_sp (wordsOf s)"
proof -
  let ?v = "dropWhile isSpaceChar s"
  have "trim (collapseSpaces s) = rtrim (collapseSpaces ?v)"
    by (simp add: trim_rtrim dropWhile_collapseSpaces)
  also have "\<dots> = join_sp (wordsOf ?v)"
    using dropWhile_no_leading [of s] by (subst rtrim_collapseSpaces) auto
  finally show ?thesis by simp
qed

lemma normalizeText_words:
  "normalizeText text = join_sp (wordsOf (stripNonWord (toLowerCase text)))"
  by (simp add: normalizeText_def trim_collapseSpaces)


lemma underscore_code: "c = CHR ''_'' \<longleftrightarrow> (of_char c :: nat) = 95"
proof -
  have "(of_char (CHR ''_'') :: nat) = 95" by simp
  then have "(of_char c :: nat) = 95 \<longleftrightarrow> (of_char c :: nat) = of_char (CHR ''_'')" by simp
  then show ?thesis by (simp only: of_char_eq_iff) 
qed

lemma isWordChar_alt: "isWordChar c \<longleftrightarrow> isAlphanumeric c \<or> c = CHR ''_''"
  unfolding underscore_code by (auto simp: isWordChar_def isAlphanumeric_def Let_def)

lemma isUpper_lowerChar: "\<not> isUpper (lowerChar c)"
proof (cases "isUpper c")
  case True
  then have "(of_char c :: nat) + 32 < 256" by (auto simp: isUpper_def Let_def)
  then have "(of_char (char_of ((of_char c :: nat) + 32)) :: nat) = of_char c + 32" by simp
  with True show ?thesis by (auto simp: lowerChar_def isUpper_def Let_def)
next
  case False
  then show ?thesis by (simp add: lowerChar_def)
qed

lemma toLowerCase_id: "\<forall>c\<in>set s. \<not> isUpper c \<Longrightarrow> toLowerCase s = s"
  by (induction s) (simp_all add: toLowerCase_def lowerChar_def)

lemma stripNonWord_id: "\<forall>c\<in>set s. isWordChar c \<or> isSpaceChar c \<Longrightarrow> stripNonWord s = s"
  by (simp add: stripNonWord_def)

lemma set_join_sp: "set (join_sp ws) \<subseteq> insert (CHR '' '') (\<Union>w\<in>set ws. set w)"
  by (induction ws rule: join_sp.induct) auto

lemma wordsOf_word_append:
  assumes "w \<noteq> []" "\<forall>c\<in>set w. \<not> isSpaceChar c" "isSpaceChar d"
  shows "wordsOf (w @ d # rest) = w # wordsOf rest"
proof -
  from assms(1) obtain c cs where w: "w = c # cs" by (cases w) auto
  with assms(2) have c: "\<not> isSpaceChar c" and cs: "\<forall>x\<in>set cs. \<not> isSpaceChar x" by auto
  from cs assms(3) have "takeWhile (\<lambda>x. \<not> isSpaceChar x) (cs @ d # rest) = cs"
    and "dropWhile (\<lambda>x. \<not> isSpaceChar x) (cs @ d # rest) = d # rest"
    by (simp_all add: takeWhile_append dropWhile_append)
  with c w assms(3) show ?thesis by (simp add: wordsOf_letter)
qed

lemma wordsOf_word:
  assumes "w \<noteq> []" "\<forall>c\<in>set w. \<not> isSpaceChar c"
  shows "wordsOf w = [w]"
proof -
  from assms(1) obtain c cs where w: "w = c # cs" by (cases w) auto
  with assms(2) have c: "\<not> isSpaceChar c" and cs: "\<forall>x\<in>set cs. \<not> isSpaceChar x" by auto
  from cs have tw: "takeWhile (\<lambda>x. \<not> isSpaceChar x) cs = cs"
    and dw: "dropWhile (\<lambda>x. \<not> isSpaceChar x) cs = []"
    by simp_all
  from c show ?thesis unfolding w by (simp add: wordsOf_letter tw dw)
qed

lemma wordsOf_join_sp:
  "\<forall>w\<in>set ws. w \<noteq> [] \<and> (\<forall>c\<in>set w. \<not> isSpaceChar c) \<Longrightarrow> wordsOf (join_sp ws) = ws"
proof (induction ws rule: join_sp.induct)
  case 1
  show ?case by simp
next
  case (2 w)
  then show ?case by (simp add: wordsOf_word)
next
  case (3 w v ws)
  have sp: "isSpaceChar (CHR '' '')" by (simp add: isSpaceChar_def)
  from "3.prems" have "wordsOf (w @ CHR '' '' # join_sp (v # ws)) = w # wordsOf (join_sp (v # ws))"
    by (intro wordsOf_word_append sp) auto
  with 3 show ?case by simp
qed

lemma normalized_fixed:
  assumes "\<forall>w\<in>set ws. w \<noteq> [] \<and> (\<forall>c\<in>set w. isWordChar c \<and> \<not> isSpaceChar c \<and> \<not> isUpper c)"
  shows "normalizeText (join_sp ws) = join_sp ws"
proof -
  have sp: "isSpaceChar (CHR '' '')" "\<not> isUpper (CHR '' '')"
    by (simp_all add: isSpaceChar_def isUpper_def)
  have chars: "\<forall>c\<in>set (join_sp ws). (isWordChar c \<or> isSpaceChar c) \<and> \<not> isUpper c"
    using set_join_sp [of ws] assms sp by auto
  then have "toLowerCase (join_sp ws) = join_sp ws" by (intro toLowerCase_id) blast
  moreover from chars have "stripNonWord (join_sp ws) = join_sp ws" by (intro stripNonWord_id) blast
  moreover from assms have "wordsOf (join_sp ws) = ws" by (intro wordsOf_join_sp) blast
  ultimately show ?thesis by (simp add: normalizeText_words)
qed

lemma set_toLowerCase: "c \<in> set (toLowerCase s) \<Longrightarrow> \<not> isUpper c"
  by (auto simp: toLowerCase_def isUpper_lowerChar)

text \<open>
  C9. Normalization is idempotent: normalizing the output of the normalizer gives the same
  string, and hence the same word sequence, as normalizing once.
\<close>

theorem normalizeText_idempotent:
  "normalizeText (normalizeText x) = normalizeText x
   \<and> split_sp (normalizeText (normalizeText x)) = split_sp (normalizeText x)"
proof -
  let ?ws = "wordsOf (stripNonWord (toLowerCase x))"
  have "\<forall>w\<in>set ?ws. w \<noteq> [] \<and> (\<forall>c\<in>set w. isWordChar c \<and> \<not> isSpaceChar c \<and> \<not> isUpper c)"
  proof (intro ballI conjI)
    fix w assume w: "w \<in> set ?ws"
    then show "w \<noteq> []" by (rule wordsOf_words_nonempty)
    fix c assume c: "c \<in> set w"
    from wordsOf_words_chars [OF w c]
    have nsp: "\<not> isSpaceChar c" and mem: "c \<in> set (stripNonWord (toLowerCase x))" by simp_all
    from nsp show "\<not> isSpaceChar c" .
    from mem nsp show "isWordChar c" by (auto simp: stripNonWord_def)
    from mem show "\<not> isUpper c" by (auto simp: stripNonWord_def set_toLowerCase)
  qed
  then have "normalizeText (join_sp ?ws) = join_sp ?ws" by (rule normalized_fixed)
  then show ?thesis by (simp add: normalizeText_words)
qed

text \<open>
  C6, as amended. For every string the normalizer lowercases it, removes every character
  that is not an ASCII letter, a digit, an underscore or white space, and leaves the words
  of the rest joined by single spaces, with no white space at either end. It is a total
  function.
\<close>

theorem normalizeText_as_words:
  "normalizeText text = normalizeSpec (\<lambda>c. isAlphanumeric c \<or> c = CHR ''_'') text"
  by (simp add: normalizeText_words normalizeSpec_def stripNonWord_def isWordChar_alt)

text \<open>
  C6 as stated fails on an underscore: it is neither alphanumeric nor white space, and the
  class \<^verbatim>\<open>\w\<close> keeps it.
\<close>

theorem normalizeText_keeps_underscore:
  "normalizeText ''snake_case'' = ''snake_case''
   \<and> normalizeSpec isAlphanumeric ''snake_case'' = ''snakecase''
   \<and> CHR ''_'' \<in> set (normalizeText ''snake_case'')
   \<and> \<not> isAlphanumeric (CHR ''_'') \<and> \<not> isSpaceChar (CHR ''_'')"
  by code_simp

section \<open>Where the scan departs from its description\<close>

text \<open>
  C1. The covered ranges of one run are claimed pairwise disjoint. On the original
  \<^verbatim>\<open>p q a b c d e\<close> and the source \<^verbatim>\<open>a b c d e z p q a b\<close> the run records the range
  \<open>[2, 6]\<close> at window size 5 and then \<open>[0, 3]\<close> at window size 4: token index 2 lies in both.
\<close>

theorem overlapping_ranges_recorded:
  "finalCoveredRanges ''p q a b c d e'' ''a b c d e z p q a b'' =
     [\<lparr>range_start = 2, range_end = 6\<rparr>, \<lparr>range_start = 0, range_end = 3\<rparr>]
   \<and> inRange (finalCoveredRanges ''p q a b c d e'' ''a b c d e z p q a b'' ! 0) 2
   \<and> inRange (finalCoveredRanges ''p q a b c d e'' ''a b c d e z p q a b'' ! 1) 2"
  by code_simp

text \<open>
  C3. A window that intersects a finalized range is claimed to be skipped. In the same run,
  after the window sizes 7, 6 and 5 the range \<open>[2, 6]\<close> is finalized; the window \<open>[0, 3]\<close> of
  size 4 intersects it, yet its start index 0 is outside the range, so the test of the loop
  does not skip it: it is searched, found and recorded.
\<close>

theorem intersecting_window_recorded:
  "snd (fold (scanWindow ''p q a b c d e'' (split_sp (normalizeText ''p q a b c d e''))
               (normalizeText ''a b c d e z p q a b'')
               (split_sp (normalizeText ''a b c d e z p q a b'')))
          [7, 6, 5] ([], []))
     = [\<lparr>range_start = 2, range_end = 6\<rparr>]
   \<and> windowIntersects [\<lparr>range_start = 2, range_end = 6\<rparr>] 0 4
   \<and> \<not> isCovered [\<lparr>range_start = 2, range_end = 6\<rparr>] 0
   \<and> snd (scanBody ''p q a b c d e'' (split_sp (normalizeText ''p q a b c d e''))
               (normalizeText ''a b c d e z p q a b'')
               (split_sp (normalizeText ''a b c d e z p q a b'')) 4 0
            (fold (scanWindow ''p q a b c d e'' (split_sp (normalizeText ''p q a b c d e''))
               (normalizeText ''a b c d e z p q a b'')
               (split_sp (normalizeText ''a b c d e z p q a b'')))
              [7, 6, 5] ([], [])))
     = [\<lparr>range_start = 2, range_end = 6\<rparr>, \<lparr>range_start = 0, range_end = 3\<rparr>]"
  by code_simp

text \<open>
  C2. The extension is claimed to go on exactly while the next original word equals the
  next source word. The loop reads \<^verbatim>\<open>sourceWords\<close> at \<^verbatim>\<open>sourceEnd\<close>, which starts as the
  character offset \<^verbatim>\<open>sourceIndex + phrase.length\<close>, not a word index. On a text of the
  sixteen words \<^verbatim>\<open>a\<close> to \<^verbatim>\<open>p\<close> compared with itself, the first fifteen words are found
  at offset 0; the next original word and the next source word are both \<^verbatim>\<open>p\<close> and neither
  sequence is exhausted, yet the loop reads beyond the sixteen source words at index 29 and
  stops at once: the range is \<open>[0, 14]\<close> and the overall similarity 93.75. On the original
  \<^verbatim>\<open>a b c d e\<close> and the source \<^verbatim>\<open>a b c d x y z e\<close> the four words are found at offset 0
  and the next source word is \<^verbatim>\<open>x\<close>, yet the loop reads the source word at index 7,
  which is \<^verbatim>\<open>e\<close>, and extends the match to five words that the source does not contain.
\<close>

theorem extension_compares_wrong_source_word:
  "indexOf (normalizeText ''a b c d e f g h i j k l m n o p'')
     (join_sp (slice (split_sp (normalizeText ''a b c d e f g h i j k l m n o p'')) 0 15)) = Some 0
   \<and> length (join_sp (slice (split_sp (normalizeText ''a b c d e f g h i j k l m n o p'')) 0 15)) = 29
   \<and> length (split_sp (normalizeText ''a b c d e f g h i j k l m n o p'')) = 16
   \<and> split_sp (normalizeText ''a b c d e f g h i j k l m n o p'') ! 15 = ''p''
   \<and> extendForward (split_sp (normalizeText ''a b c d e f g h i j k l m n o p''))
        (normalizeText ''a b c d e f g h i j k l m n o p'')
        (split_sp (normalizeText ''a b c d e f g h i j k l m n o p''))
        (''a b c d e f g h i j k l m n o'', 15, 29)
      = (''a b c d e f g h i j k l m n o'', 15, 29)
   \<and> finalCoveredRanges ''a b c d e f g h i j k l m n o p'' ''a b c d e f g h i j k l m n o p''
      = [\<lparr>range_start = 0, range_end = 14\<rparr>]
   \<and> overallSimilarity (findAllSimilarities ''a b c d e f g h i j k l m n o p''
                                             ''a b c d e f g h i j k l m n o p'') = 93.75
   \<and> split_sp (normalizeText ''a b c d e'') ! 4 = ''e''
   \<and> split_sp (normalizeText ''a b c d x y z e'') ! 4 = ''x''
   \<and> indexOf (normalizeText ''a b c d x y z e'') ''a b c d e'' = None
   \<and> extendForward (split_sp (normalizeText ''a b c d e'')) (normalizeText ''a b c d x y z e'')
        (split_sp (normalizeText ''a b c d x y z e'')) (''a b c d'', 4, 7) = (''a b c d e'', 5, 8)
   \<and> finalCoveredRanges ''a b c d e'' ''a b c d x y z e'' = [\<lparr>range_start = 0, range_end = 4\<rparr>]"
  by code_simp

end
